theory Spec2Isabelle
  imports Main
begin

section \<open>Python primitives used by \<open>convert_p8.py\<close>\<close>

text \<open>
  A Python \<open>str\<close> is modelled as a \<open>string\<close>, one \<open>char\<close> per code point; the model
  therefore covers documents whose code points are below 256.  The functions of this
  section are the built-ins the converter calls (\<open>str.find\<close>, slicing, \<open>str.split\<close>,
  \<open>str.strip\<close>, \<open>str.startswith\<close>, \<open>str.join\<close>, \<open>int(s, 16)\<close>, \<open>str(int)\<close>, the format
  \<open>02x\<close>, \<open>range\<close>), written out as CPython 3 computes them.
\<close>

definition nl :: string where
  "nl = [CHR 0x0A]"

definition startswith :: "string \<Rightarrow> string \<Rightarrow> bool" where
  "startswith s p = (take (length p) s = p)"

text \<open>\<open>s.find(sub)\<close>: the lowest index where \<open>sub\<close> occurs in \<open>s\<close>, or \<open>-1\<close>.\<close>

fun find_from :: "nat \<Rightarrow> string \<Rightarrow> string \<Rightarrow> int" where
  "find_from i [] sub = (if sub = [] then int i else - 1)"
| "find_from i (c # cs) sub =
     (if startswith (c # cs) sub then int i else find_from (Suc i) cs sub)"

definition find_str :: "string \<Rightarrow> string \<Rightarrow> int" where
  "find_str s sub = find_from 0 s sub"

text \<open>\<open>xs[a:b]\<close> with integer bounds: a negative bound counts from the end, and both
  bounds are clamped to the length.\<close>

definition slice_index :: "nat \<Rightarrow> int \<Rightarrow> nat" where
  "slice_index n i = (if i < 0 then nat (max 0 (int n + i)) else min n (nat i))"

definition py_slice :: "'a list \<Rightarrow> int \<Rightarrow> int \<Rightarrow> 'a list" where
  "py_slice xs a b =
     (let lo = slice_index (length xs) a; hi = slice_index (length xs) b
      in take (hi - lo) (drop lo xs))"

text \<open>\<open>s.split('\n')\<close>: the pieces between line feeds; never an empty list.\<close>

fun split_nl :: "string \<Rightarrow> string list" where
  "split_nl [] = [[]]"
| "split_nl (c # cs) =
     (if c = CHR 0x0A then [] # split_nl cs
      else (case split_nl cs of
              [] \<Rightarrow> [[c]]
            | l # ls \<Rightarrow> (c # l) # ls))"

text \<open>The characters \<open>str.isspace\<close> accepts, among code points below 256.\<close>

definition isspace :: "char \<Rightarrow> bool" where
  "isspace c = (c \<in> {CHR 0x09, CHR 0x0A, CHR 0x0B, CHR 0x0C, CHR 0x0D,
                       CHR 0x1C, CHR 0x1D, CHR 0x1E, CHR 0x1F, CHR 0x20,
                       CHR 0x85, CHR 0xA0})"

definition strip :: "string \<Rightarrow> string" where
  "strip s = rev (dropWhile isspace (rev (dropWhile isspace s)))"

fun join_str :: "string \<Rightarrow> string list \<Rightarrow> string" where
  "join_str sep [] = []"
| "join_str sep [x] = x"
| "join_str sep (x # y # ys) = x @ sep @ join_str sep (y # ys)"

text \<open>\<open>range(start, stop, step)\<close> for a positive step.\<close>

function range_step :: "nat \<Rightarrow> nat \<Rightarrow> nat \<Rightarrow> nat list" where
  "range_step i stop step =
     (if i < stop \<and> 0 < step then i # range_step (i + step) stop step else [])"
  by pat_completeness auto
termination
  by (relation "measure (\<lambda>(i, stop, step). stop - i)") auto

declare range_step.simps [simp del]

text \<open>The loop \<open>while len(xs) < n: xs.append(x)\<close>.\<close>

function pad_to :: "nat \<Rightarrow> 'a \<Rightarrow> 'a list \<Rightarrow> 'a list" where
  "pad_to n x xs = (if length xs < n then pad_to n x (xs @ [x]) else xs)"
  by pat_completeness auto
termination
  by (relation "measure (\<lambda>(n, x, xs). n - length xs)") auto

declare pad_to.simps [simp del]

subsection \<open>\<open>int(s, 16)\<close>\<close>

text \<open>The result \<open>None\<close> stands for the exception \<open>ValueError\<close>.  The argument
  is read as CPython reads it: whitespace at both ends, an optional sign, an optional
  prefix \<open>0x\<close>, then hexadecimal digits that single underscores may separate.
  (Beyond code point 255, \<open>int\<close> also reads the decimal digits of other scripts;
  those characters are outside this model.)\<close>

definition digit_value :: "char \<Rightarrow> int option" where
  "digit_value c =
     (let n = (of_char c :: nat)
      in if 48 \<le> n \<and> n \<le> 57 then Some (int n - 48)
         else if 97 \<le> n \<and> n \<le> 102 then Some (int n - 87)
         else if 65 \<le> n \<and> n \<le> 70 then Some (int n - 55)
         else None)"

text \<open>The whitespace \<open>int\<close> skips at both ends of its argument: the ASCII
  characters of C's \<open>isspace\<close>, and the non-ASCII spaces U+0085 and U+00A0.
  (Unlike \<open>str.strip\<close>, it does not skip U+001C to U+001F.)\<close>

definition int_space :: "char \<Rightarrow> bool" where
  "int_space c = (c \<in> {CHR 0x09, CHR 0x0A, CHR 0x0B, CHR 0x0C, CHR 0x0D, CHR 0x20,
                         CHR 0x85, CHR 0xA0})"

text \<open>The digits after the first one: a single underscore may separate two digits.
  The result is the value read and the unread rest, or \<open>None\<close> for a misplaced
  underscore.\<close>

fun scan_digits :: "int \<Rightarrow> string \<Rightarrow> (int \<times> string) option" where
  "scan_digits acc [] = Some (acc, [])"
| "scan_digits acc [c] =
     (case digit_value c of
        Some d \<Rightarrow> Some (16 * acc + d, [])
      | None \<Rightarrow> if c = CHR ''_'' then None else Some (acc, [c]))"
| "scan_digits acc (c # c' # cs) =
     (case digit_value c of
        Some d \<Rightarrow> scan_digits (16 * acc + d) (c' # cs)
      | None \<Rightarrow>
          if c = CHR ''_'' then
            (case digit_value c' of
               Some d \<Rightarrow> scan_digits (16 * acc + d) cs
             | None \<Rightarrow> None)
          else Some (acc, c # c' # cs))"

definition skip_sign :: "string \<Rightarrow> bool \<times> string" where
  "skip_sign s =
     (case s of
        [] \<Rightarrow> (False, [])
      | c # cs \<Rightarrow> if c = CHR ''+'' then (False, cs)
                  else if c = CHR ''-'' then (True, cs)
                  else (False, s))"

definition skip_prefix :: "string \<Rightarrow> string" where
  "skip_prefix s =
     (case s of
        a # b # r \<Rightarrow>
          if a = CHR ''0'' \<and> (b = CHR ''x'' \<or> b = CHR ''X'') then
            (case r of
               [] \<Rightarrow> r
             | u # r' \<Rightarrow> if u = CHR ''_'' then r' else r)
          else s
      | _ \<Rightarrow> s)"

definition int16 :: "string \<Rightarrow> int option" where
  "int16 s =
     (let (neg, t) = skip_sign (dropWhile int_space s)
      in case skip_prefix t of
           [] \<Rightarrow> None
         | c # cs \<Rightarrow>
             (case digit_value c of
                None \<Rightarrow> None
              | Some d \<Rightarrow>
                  (case scan_digits d cs of
                     None \<Rightarrow> None
                   | Some (v, rest) \<Rightarrow>
                       if list_all int_space rest
                       then Some (if neg then - v else v)
                       else None)))"

subsection \<open>\<open>str(n)\<close> and the format \<open>02x\<close>\<close>

definition digit_char :: "nat \<Rightarrow> char" where
  "digit_char d = ''0123456789abcdef'' ! d"

function digits_of :: "nat \<Rightarrow> nat \<Rightarrow> string" where
  "digits_of base n =
     (if n < base \<or> base < 2 then [digit_char n]
      else digits_of base (n div base) @ [digit_char (n mod base)])"
  by pat_completeness auto
termination
  by (relation "measure (\<lambda>(base, n). n)") auto

declare digits_of.simps [simp del]

definition str_int :: "int \<Rightarrow> string" where
  "str_int i = (if i < 0 then CHR ''-'' # digits_of 10 (nat (- i)) else digits_of 10 (nat i))"

text \<open>\<open>format(b, '02x')\<close>: lowercase hexadecimal, the sign first, zero-filled to a
  width of two characters that counts the sign.\<close>

definition format_02x :: "int \<Rightarrow> string" where
  "format_02x b =
     (let sgn = (if b < 0 then ''-'' else '''');
          ds = digits_of 16 (nat \<bar>b\<bar>)
      in sgn @ replicate (2 - (length sgn + length ds)) CHR ''0'' @ ds)"


section \<open>The converter\<close>

subsection \<open>Locating and filtering the sections\<close>

text \<open>The end offsets \<open>gfx_end\<close> and \<open>map_end\<close> of the two slices.\<close>

definition gfx_end :: "string \<Rightarrow> int" where
  "gfx_end content =
     (let map_start = find_str content ''__map__'';
          label_start = find_str content ''__label__''
      in if label_start \<noteq> - 1 \<and> label_start < map_start then label_start else map_start)"

definition map_end :: "string \<Rightarrow> int" where
  "map_end content =
     (let sfx_start = find_str content ''__sfx__''
      in if sfx_start \<noteq> - 1 then sfx_start else int (length content))"

text \<open>\<open>raw.split('\n')[1:]\<close> followed by the list comprehension that keeps the
  lines with a non-empty \<open>strip()\<close> that do not start with two underscores.\<close>

definition section_lines :: "string \<Rightarrow> string list" where
  "section_lines raw =
     [strip line. line \<leftarrow> drop 1 (split_nl raw),
                  strip line \<noteq> [] \<and> \<not> startswith line ''__'']"

definition gfx_section :: "string \<Rightarrow> string list" where
  "gfx_section content =
     section_lines (py_slice content (find_str content ''__gfx__'') (gfx_end content))"

definition map_section :: "string \<Rightarrow> string list" where
  "map_section content =
     section_lines (py_slice content (find_str content ''__map__'') (map_end content))"

subsection \<open>The spritesheet\<close>

text \<open>One character of a row: \<open>str(int(c, 16))\<close>, or \<open>'0'\<close> on \<open>ValueError\<close>.\<close>

definition pixel :: "char \<Rightarrow> string" where
  "pixel c = (case int16 [c] of Some v \<Rightarrow> str_int v | None \<Rightarrow> ''0'')"

definition row_pixels :: "string \<Rightarrow> string list" where
  "row_pixels row = pad_to 128 ''0'' (map pixel (take 128 row))"

definition write_row :: "nat \<Rightarrow> string list \<Rightarrow> string" where
  "write_row row_idx pixels =
     ''    {'' @ join_str '','' pixels @ ''}'' @ (if row_idx < 127 then '','' else []) @ nl"

text \<open>The two loops that write the rows: the section's first 128 lines, then rows
  of zeros for the indices from \<open>len(gfx_section)\<close> up to 127.\<close>

definition spritesheet_text :: "string list \<Rightarrow> string" where
  "spritesheet_text gfx =
     concat (map (\<lambda>(row_idx, row). write_row row_idx (row_pixels row))
                 (enumerate 0 (take 128 gfx)))
     @ concat (map (\<lambda>row_idx. write_row row_idx (replicate 128 ''0''))
                   [length gfx..<128])"

subsection \<open>The map\<close>

text \<open>One two-character token: \<open>int(row[i:i+2], 16)\<close>, or \<open>0\<close> on \<open>ValueError\<close>.\<close>

definition byte_val :: "string \<Rightarrow> int" where
  "byte_val tok = (case int16 tok of Some v \<Rightarrow> v | None \<Rightarrow> 0)"

text \<open>The inner loop over \<open>range(0, len(row), 2)\<close>, appending to \<open>map_bytes\<close>.\<close>

definition scan_row :: "string \<Rightarrow> int list \<Rightarrow> int list" where
  "scan_row row map_bytes =
     fold (\<lambda>i acc. if i + 1 < length row then acc @ [byte_val (take 2 (drop i row))] else acc)
          (range_step 0 (length row) 2) map_bytes"

definition collect_bytes :: "string list \<Rightarrow> int list" where
  "collect_bytes rows = fold (\<lambda>row acc. scan_row (strip row) acc) rows []"

definition map_bytes :: "string list \<Rightarrow> int list" where
  "map_bytes rows = pad_to 4096 0 (collect_bytes rows)"

definition write_chunk :: "nat \<Rightarrow> int list \<Rightarrow> string" where
  "write_chunk i bytes =
     ''    '' @ join_str '','' (map (\<lambda>b. ''0x'' @ format_02x b) (take 16 (drop i bytes)))
     @ (if i + 16 < 4096 then '','' else []) @ nl"

definition map_text :: "int list \<Rightarrow> string" where
  "map_text bytes = concat (map (\<lambda>i. write_chunk i bytes) (range_step 0 4096 16))"

subsection \<open>The header and the run\<close>

definition header_text :: "string list \<Rightarrow> string list \<Rightarrow> string" where
  "header_text gfx rows =
     ''/*'' @ nl
     @ '' * Hyperspace Game Data - PicoSystem Port'' @ nl
     @ '' * Auto-generated from hyperspace.lua.p8'' @ nl
     @ '' */'' @ nl @ nl
     @ ''#ifndef HYPERSPACE_DATA_H'' @ nl
     @ ''#define HYPERSPACE_DATA_H'' @ nl @ nl
     @ ''#include <stdint.h>'' @ nl @ nl
     @ ''// Spritesheet data (128x128 pixels, 4-bit palette indices)'' @ nl
     @ ''static const uint8_t hyperspace_spritesheet[128][128] = {'' @ nl
     @ spritesheet_text gfx
     @ ''};'' @ nl @ nl
     @ ''// Map memory data (4KB, contains mesh definitions)'' @ nl
     @ ''static const uint8_t hyperspace_map[0x1000] = {'' @ nl
     @ map_text (map_bytes rows)
     @ ''};'' @ nl @ nl
     @ ''#endif // HYPERSPACE_DATA_H'' @ nl"

text \<open>
  The world the program runs in: the files by path, each with the text that reading
  it gives, and the lines printed to the two output streams.  \<open>print\<close> writes to
  standard output.  Opening a path that has no file for reading raises
  \<open>FileNotFoundError\<close>; opening the output path for writing creates or replaces the
  file.
\<close>

record world =
  files :: "string \<Rightarrow> string option"
  stdout :: "string list"
  stderr :: "string list"

datatype error = FileNotFoundError

definition print :: "string \<Rightarrow> world \<Rightarrow> world" where
  "print s w = w\<lparr>stdout := stdout w @ [s]\<rparr>"

definition repr_list :: "int list \<Rightarrow> string" where
  "repr_list xs = ''['' @ join_str '', '' (map str_int xs) @ '']''"

definition convert_p8_to_header :: "string \<Rightarrow> string \<Rightarrow> world \<Rightarrow> error + world" where
  "convert_p8_to_header p8_file output_file w =
     (case files w p8_file of
        None \<Rightarrow> Inl FileNotFoundError
      | Some content \<Rightarrow>
          if find_str content ''__gfx__'' = - 1 then
            Inr (print ''Error: __gfx__ section not found'' w)
          else if find_str content ''__map__'' = - 1 then
            Inr (print ''Error: __map__ section not found'' w)
          else
            (let gfx = gfx_section content;
                 rows = map_section content;
                 w1 = print (''Found '' @ str_int (int (length gfx)) @ '' GFX lines'') w;
                 w2 = print (''Found '' @ str_int (int (length rows)) @ '' MAP lines'') w1;
                 w3 = print (''Map bytes extracted: ''
                             @ str_int (int (length (map_bytes rows)))
                             @ '' (first 16: '' @ repr_list (take 16 (map_bytes rows)) @ '')'') w2;
                 w4 = w3\<lparr>files := (files w3)(output_file \<mapsto> header_text gfx rows)\<rparr>
             in Inr (print (''Generated '' @ output_file) w4)))"

text \<open>The script: the call with the two fixed paths.  A run that returns ends with
  exit status 0; an uncaught exception is reported on standard error and ends the
  run with exit status 1.\<close>

definition p8_file :: string where
  "p8_file = ''/home/terada/trees/itsmeterada/pico/hyperspace/hyperspace.lua.p8''"

definition output_file :: string where
  "output_file = ''/home/terada/trees/itsmeterada/pico/picosystem_hyperspace/hyperspace_data.h''"

definition main :: "world \<Rightarrow> world \<times> nat" where
  "main w =
     (case convert_p8_to_header p8_file output_file w of
        Inr w' \<Rightarrow> (w', 0)
      | Inl e \<Rightarrow> (w\<lparr>stderr := stderr w @ [''FileNotFoundError'']\<rparr>, 1))"

section \<open>Notions used to state the properties\<close>

text \<open>An occurrence of \<open>sub\<close> in \<open>s\<close> at offset \<open>k\<close>.\<close>

definition occurs_at :: "string \<Rightarrow> string \<Rightarrow> nat \<Rightarrow> bool" where
  "occurs_at s sub k = (k + length sub \<le> length s \<and> take (length sub) (drop k s) = sub)"

text \<open>The complete two-character pairs of a line, left to right; an unpaired last
  character belongs to no pair.\<close>

fun pairs :: "'a list \<Rightarrow> 'a list list" where
  "pairs (a # b # r) = [a, b] # pairs r"
| "pairs r = []"



text \<open>The values that the loop over \<open>range(0, 0x1000, 16)\<close> writes, in order: the
  slices \<open>map_bytes[i:i+16]\<close> one after the other.\<close>

definition map_entries :: "int list \<Rightarrow> int list" where
  "map_entries bytes = concat (map (\<lambda>i. take 16 (drop i bytes)) (range_step 0 4096 16))"

text \<open>Example inputs: a world that holds one document at the input path and
  nothing else, a small document with both sections, and one with all four
  markers.\<close>

definition world_of :: "string \<Rightarrow> world" where
  "world_of content =
     \<lparr>files = (\<lambda>p. if p = p8_file then Some content else None), stdout = [], stderr = []\<rparr>"

definition doc_small :: string where
  "doc_small = ''__gfx__'' @ nl @ ''0f'' @ nl @ ''__map__'' @ nl @ ''ff''"

definition doc_full :: string where
  "doc_full = ''__gfx__'' @ nl @ ''01'' @ nl @ ''__label__'' @ nl @ ''zz'' @ nl
              @ ''__map__'' @ nl @ ''ff'' @ nl @ ''__sfx__'' @ nl @ ''00''"

text \<open>Two more documents: one whose \<open>__sfx__\<close> comes before \<open>__map__\<close>, and one
  whose map line is a sign and a digit.\<close>

definition doc_sfx_first :: string where
  "doc_sfx_first = ''__sfx__'' @ nl @ ''__gfx__'' @ nl @ ''0f'' @ nl @ ''__map__'' @ nl @ ''ff''"

definition doc_signed :: string where
  "doc_signed = ''__gfx__'' @ nl @ ''__map__'' @ nl @ ''-1''"

section \<open>Properties of the primitives\<close>

lemma pad_to_eq: "pad_to n x xs = xs @ replicate (n - length xs) x"
proof (induction n x xs rule: pad_to.induct)
  case (1 n x xs)
  show ?case
  proof (cases "length xs < n")
    case True
    then have "n - length xs = Suc (n - Suc (length xs))" by simp
    with True 1 show ?thesis
      by (subst pad_to.simps) (simp add: replicate_app_Cons_same)
  next
    case False
    then show ?thesis by (subst pad_to.simps) simp
  qed
qed

lemma range_step_mult:
  "0 < step \<Longrightarrow> range_step (a * step) (n * step) step = map (\<lambda>k. k * step) [a..<n]"
proof (induction "n - a" arbitrary: a)
  case 0
  then show ?case by (subst range_step.simps) simp
next
  case (Suc d)
  then have lt: "a < n" and d: "d = n - Suc a" by simp_all
  from lt Suc.prems have "a * step < n * step" by simp
  moreover have "a * step + step = Suc a * step" by simp
  ultimately show ?case
    using Suc.hyps(1)[OF d Suc.prems] lt Suc.prems
    by (subst range_step.simps) (simp add: upt_conv_Cons del: mult_Suc)
qed

lemma range_step_4096: "range_step 0 4096 16 = map (\<lambda>k. k * 16) [0..<256]"
  using range_step_mult[of 16 0 256] by simp

subsection \<open>\<open>find\<close> and slices\<close>

lemma occurs_at_0: "sub \<noteq> [] \<Longrightarrow> occurs_at (c # cs) sub 0 = startswith (c # cs) sub"
  unfolding occurs_at_def startswith_def
  by (metis add_0 drop0 length_take min.cobounded2 min_def nat_le_linear take_all)

lemma occurs_at_Suc: "occurs_at (c # cs) sub (Suc k) = occurs_at cs sub k"
  by (simp add: occurs_at_def)

lemma occurs_at_Nil: "sub \<noteq> [] \<Longrightarrow> \<not> occurs_at [] sub k"
  by (simp add: occurs_at_def)

lemma find_from_absent:
  "sub \<noteq> [] \<Longrightarrow> find_from i s sub = - 1 \<Longrightarrow> \<not> occurs_at s sub k"
proof (induction s arbitrary: i k)
  case Nil
  then show ?case by (simp add: occurs_at_Nil)
next
  case (Cons c cs)
  show ?case
  proof (cases k)
    case 0
    with Cons.prems show ?thesis
      by (auto simp: occurs_at_0 split: if_splits)
  next
    case (Suc k')
    with Cons show ?thesis
      by (auto simp: occurs_at_Suc split: if_splits)
  qed
qed

lemma find_from_first:
  "sub \<noteq> [] \<Longrightarrow> find_from i s sub \<noteq> - 1 \<Longrightarrow>
   \<exists>k. find_from i s sub = int (i + k) \<and> occurs_at s sub k \<and> (\<forall>j<k. \<not> occurs_at s sub j)"
proof (induction s arbitrary: i)
  case Nil
  then show ?case by simp
next
  case (Cons c cs)
  show ?case
  proof (cases "startswith (c # cs) sub")
    case True
    with Cons.prems(1) have "find_from i (c # cs) sub = int (i + 0) \<and> occurs_at (c # cs) sub 0"
      by (simp add: occurs_at_0)
    then show ?thesis by blast
  next
    case False
    with Cons.prems have ne: "find_from (Suc i) cs sub \<noteq> - 1" by simp
    from Cons.IH[OF Cons.prems(1) ne] obtain k where
      k: "find_from (Suc i) cs sub = int (Suc i + k)" "occurs_at cs sub k"
         "\<forall>j<k. \<not> occurs_at cs sub j" by blast
    have "\<forall>j<Suc k. \<not> occurs_at (c # cs) sub j"
    proof (intro allI impI)
      fix j assume "j < Suc k"
      then show "\<not> occurs_at (c # cs) sub j"
        using k(3) False Cons.prems(1) by (cases j) (simp_all add: occurs_at_0 occurs_at_Suc)
    qed
    with k False show ?thesis
      by (intro exI[of _ "Suc k"]) (simp add: occurs_at_Suc)
  qed
qed

lemma find_str_absent_iff:
  assumes "sub \<noteq> []"
  shows "find_str s sub = - 1 \<longleftrightarrow> (\<forall>k. \<not> occurs_at s sub k)"
proof
  assume "find_str s sub = - 1"
  with assms show "\<forall>k. \<not> occurs_at s sub k"
    unfolding find_str_def using find_from_absent by blast
next
  assume none: "\<forall>k. \<not> occurs_at s sub k"
  show "find_str s sub = - 1"
  proof (rule ccontr)
    assume "find_str s sub \<noteq> - 1"
    then have "find_from 0 s sub \<noteq> - 1" by (simp add: find_str_def)
    from find_from_first[OF assms this] none show False by blast
  qed
qed

lemma find_str_first_iff:
  assumes "sub \<noteq> []"
  shows "find_str s sub = int k \<longleftrightarrow> occurs_at s sub k \<and> (\<forall>j<k. \<not> occurs_at s sub j)"
proof
  assume eq: "find_str s sub = int k"
  then have "find_from 0 s sub \<noteq> - 1" by (simp add: find_str_def)
  from find_from_first[OF assms this] eq show "occurs_at s sub k \<and> (\<forall>j<k. \<not> occurs_at s sub j)"
    by (auto simp: find_str_def)
next
  assume h: "occurs_at s sub k \<and> (\<forall>j<k. \<not> occurs_at s sub j)"
  then have "find_str s sub \<noteq> - 1" using find_str_absent_iff[OF assms] by blast
  then have "find_from 0 s sub \<noteq> - 1" by (simp add: find_str_def)
  from find_from_first[OF assms this] obtain k' where
    k': "find_from 0 s sub = int k'" "occurs_at s sub k'" "\<forall>j<k'. \<not> occurs_at s sub j" by auto
  with h have "k' = k" by (meson linorder_neqE_nat)
  with k' show "find_str s sub = int k" by (simp add: find_str_def)
qed

lemma find_str_range:
  "find_str s sub = - 1 \<or> (0 \<le> find_str s sub \<and> find_str s sub \<le> int (length s))"
proof -
  have "find_from i s sub = - 1 \<or>
        (int i \<le> find_from i s sub \<and> find_from i s sub \<le> int (i + length s))" for i
    by (induction s arbitrary: i) (auto, force+)
  from this[of 0] show ?thesis by (simp add: find_str_def)
qed

lemma py_slice_nonneg: "py_slice xs (int a) (int b) = take (b - a) (drop a xs)"
  unfolding py_slice_def slice_index_def Let_def
  by (cases "a \<le> length xs"; cases "b \<le> length xs") (simp_all add: min_def)

subsection \<open>\<open>int(s, 16)\<close> on one and two characters\<close>

lemma digit_value_range: "digit_value c = Some d \<Longrightarrow> 0 \<le> d \<and> d \<le> 15"
  by (auto simp: digit_value_def Let_def split: if_splits)

lemma digit_value_int_space: "int_space c \<Longrightarrow> digit_value c = None"
  by (auto simp: int_space_def digit_value_def)

lemma digit_value_sign: "digit_value CHR ''+'' = None" "digit_value CHR ''-'' = None"
  by (simp_all add: digit_value_def)

lemma digit_value_x: "digit_value CHR ''x'' = None" "digit_value CHR ''X'' = None"
  by (simp_all add: digit_value_def)


lemma int16_hex_pair:
  assumes "digit_value a = Some x" and "digit_value b = Some y"
  shows "int16 [a, b] = Some (16 * x + y)"
proof -
  from assms(1) have a: "\<not> int_space a" "a \<noteq> CHR ''+''" "a \<noteq> CHR ''-''"
    using digit_value_int_space digit_value_sign by auto
  from assms(2) have b: "b \<noteq> CHR ''x''" "b \<noteq> CHR ''X''"
    using digit_value_x by auto
  from a b assms show ?thesis
    by (simp add: int16_def skip_sign_def skip_prefix_def)
qed

section \<open>Properties of the encoders\<close>

subsection \<open>The spritesheet\<close>







subsection \<open>The map\<close>

lemma fold_range_pairs:
  "fold (\<lambda>i acc. if i + 1 < length row then acc @ [f (take 2 (drop i row))] else acc)
        (range_step i (length row) 2) acc
   = acc @ map f (pairs (drop i row))"
proof (induction i "length row" "2::nat" arbitrary: acc rule: range_step.induct)
  case (1 i)
  show ?case
  proof (cases "i < length row")
    case False
    then show ?thesis by (subst range_step.simps) simp
  next
    case True
    note lt = this
    show ?thesis
    proof (cases "i + 1 < length row")
      case True
      then obtain a b r where d: "drop i row = a # b # r"
        by (metis Cons_nth_drop_Suc Suc_eq_plus1 lt)
      then have d2: "drop (i + 2) row = r"
        by (metis add_2_eq_Suc' drop_Suc list.sel(3) tl_drop)
      show ?thesis using lt True 1[of "acc @ [f [a, b]]"] d d2
        by (subst range_step.simps) simp
    next
      case False
      with lt have "drop i row = [row ! i]"
        by (metis Cons_nth_drop_Suc Suc_eq_plus1 drop_all linorder_not_less)
      moreover from False have "range_step (i + 2) (length row) 2 = []"
        by (subst range_step.simps) simp
      ultimately show ?thesis using lt False
        by (subst range_step.simps) simp
    qed
  qed
qed

lemma scan_row_eq: "scan_row row acc = acc @ map byte_val (pairs row)"
  unfolding scan_row_def using fold_range_pairs[of row byte_val 0 acc] by simp

lemma fold_scan_row:
  "fold (\<lambda>row acc. scan_row (strip row) acc) rows acc
   = acc @ concat (map (\<lambda>row. map byte_val (pairs (strip row))) rows)"
  by (induction rows arbitrary: acc) (simp_all add: scan_row_eq)

lemma collect_bytes_eq:
  "collect_bytes rows = concat (map (\<lambda>row. map byte_val (pairs (strip row))) rows)"
  by (simp add: collect_bytes_def fold_scan_row)

lemma map_bytes_eq:
  "map_bytes rows = collect_bytes rows @ replicate (4096 - length (collect_bytes rows)) 0"
  by (simp add: map_bytes_def pad_to_eq)


lemma concat_chunks:
  "concat (map (\<lambda>i. take 16 (drop i xs)) (map (\<lambda>k. k * 16) [0..<n])) = take (n * 16) xs"
proof (induction n)
  case 0
  then show ?case by simp
next
  case (Suc n)
  have "take (n * 16 + 16) xs = take (n * 16) xs @ take 16 (drop (n * 16) xs)"
    by (rule take_add)
  with Suc show ?case by (simp add: add.commute)
qed

lemma map_entries_eq: "map_entries bytes = take 4096 bytes"
  using concat_chunks[of bytes 256] by (simp add: map_entries_def range_step_4096)



subsection \<open>The line filter\<close>

lemma comprehension_eq:
  "concat (map (\<lambda>x. if P x then [f x] else []) xs) = map f (filter P xs)"
  by (induction xs) simp_all

lemma section_lines_eq:
  "section_lines raw =
     map strip (filter (\<lambda>line. strip line \<noteq> [] \<and> \<not> startswith line ''__'')
                       (tl (split_nl raw)))"
  by (simp add: section_lines_def comprehension_eq drop_Suc)

lemma split_nl_nonempty: "split_nl s \<noteq> []"
  by (induction s) (auto split: list.splits)

lemma join_split_nl: "join_str nl (split_nl s) = s"
proof (induction s)
  case Nil
  then show ?case by simp
next
  case (Cons c cs)
  obtain l ls where ls: "split_nl cs = l # ls"
    using split_nl_nonempty[of cs] by (cases "split_nl cs") auto
  with Cons show ?case
    by (cases ls) (auto simp: nl_def)
qed

lemma strip_hd: "strip s \<noteq> [] \<Longrightarrow> \<not> isspace (hd (strip s))"
  by (metis append_is_Nil_conv hd_dropWhile last_appendR last_rev
    rev.simps(1) rev_rev_ident strip_def takeWhile_dropWhile_id)

lemma strip_last:
  assumes "strip s \<noteq> []"
  shows "\<not> isspace (last (strip s))"
proof -
  let ?t = "dropWhile isspace (rev (dropWhile isspace s))"
  from assms have "?t \<noteq> []" by (simp add: strip_def)
  then have "\<not> isspace (hd ?t)" by (rule hd_dropWhile)
  then show ?thesis by (simp add: strip_def last_rev)
qed

lemma strip_fixed:
  "s \<noteq> [] \<Longrightarrow> \<not> isspace (hd s) \<Longrightarrow> \<not> isspace (last s) \<Longrightarrow> strip s = s"
  by (metis dropWhile_eq_self_iff hd_rev rev_rev_ident strip_def)

lemma strip_idem: "strip (strip s) = strip s"
proof (cases "strip s = []")
  case True
  moreover have "strip [] = []" by (simp add: strip_def)
  ultimately show ?thesis by simp
next
  case False
  then show ?thesis by (simp add: strip_fixed strip_hd strip_last)
qed

lemma section_lines_trimmed:
  assumes "l \<in> set (section_lines raw)"
  shows "l \<noteq> [] \<and> strip l = l"
proof -
  from assms obtain line where "l = strip line" "strip line \<noteq> []"
    by (auto simp: section_lines_eq)
  then show ?thesis by (simp add: strip_idem)
qed

subsection \<open>Pairs\<close>

lemma pairs_butlast: "odd (length xs) \<Longrightarrow> pairs xs = pairs (butlast xs)"
  by (induction xs rule: pairs.induct) auto

lemma concat_pairs: "even (length xs) \<Longrightarrow> concat (pairs xs) = xs"
  by (induction xs rule: pairs.induct) auto

lemma length_pairs: "length (pairs xs) = length xs div 2"
  by (induction xs rule: pairs.induct) auto

subsection \<open>The written entries\<close>





lemma startswith_occurs: "occurs_at s sub k \<Longrightarrow> startswith (drop k s) sub"
  by (simp add: occurs_at_def startswith_def)

lemma section_lines_Nil: "section_lines [] = []"
  by (simp add: section_lines_def)

lemma map_bytes_Nil: "map_bytes [] = replicate 4096 0"
  by (simp add: map_bytes_eq collect_bytes_eq)

lemma occurs_at_middle: "occurs_at (pre @ mk @ post) mk (length pre)"
  by (simp add: occurs_at_def)

lemma map_text_first:
  "map_text bytes =
     write_chunk 0 bytes @ concat (map (\<lambda>i. write_chunk i bytes) (range_step 16 4096 16))"
  unfolding map_text_def by (subst range_step.simps) simp

text \<open>On the tokens and values they were written for, the byte decoder and the
  format give a byte and its two lowercase hexadecimal digits.\<close>

lemma byte_val_hex_pair:
  assumes "digit_value a = Some x" and "digit_value b = Some y"
  shows "byte_val [a, b] = 16 * x + y \<and> 0 \<le> byte_val [a, b] \<and> byte_val [a, b] \<le> 255"
  using int16_hex_pair[OF assms] digit_value_range[OF assms(1)] digit_value_range[OF assms(2)]
  by (simp add: byte_val_def)

lemma format_02x_byte:
  assumes "0 \<le> b" and "b \<le> 255"
  shows "format_02x b = [digit_char (nat b div 16), digit_char (nat b mod 16)]"
proof (cases "nat b < 16")
  case True
  then have "digits_of 16 (nat b) = [digit_char (nat b)]"
    by (subst digits_of.simps) simp
  moreover have "digit_char 0 = CHR ''0''" by (simp add: digit_char_def)
  ultimately show ?thesis using True assms by (simp add: format_02x_def)
next
  case False
  from assms have "nat b div 16 < 16" by simp
  then have "digits_of 16 (nat b div 16) = [digit_char (nat b div 16)]"
    by (subst digits_of.simps) simp
  with False have "digits_of 16 (nat b) = [digit_char (nat b div 16), digit_char (nat b mod 16)]"
    by (subst digits_of.simps) simp
  with assms show ?thesis by (simp add: format_02x_def)
qed

subsection \<open>The run\<close>

lemma convert_missing:
  assumes "files w p8 = Some content"
      and "find_str content ''__gfx__'' = - 1 \<or> find_str content ''__map__'' = - 1"
  shows "convert_p8_to_header p8 out w =
           Inr (print (if find_str content ''__gfx__'' = - 1
                       then ''Error: __gfx__ section not found''
                       else ''Error: __map__ section not found'') w)"
  using assms by (auto simp: convert_p8_to_header_def)

lemma convert_present:
  assumes "files w p8 = Some content"
      and "find_str content ''__gfx__'' \<noteq> - 1" and "find_str content ''__map__'' \<noteq> - 1"
  shows "\<exists>w'. convert_p8_to_header p8 out w = Inr w'
           \<and> files w' = (files w)(out \<mapsto> header_text (gfx_section content) (map_section content))
           \<and> stderr w' = stderr w"
  using assms by (simp add: convert_p8_to_header_def Let_def print_def)

lemma convert_absent_file:
  "files w p8 = None \<Longrightarrow> convert_p8_to_header p8 out w = Inl FileNotFoundError"
  by (simp add: convert_p8_to_header_def)

section \<open>The claims\<close>



text \<open>
  C2, as the code has it.  When the document lacks \<open>__gfx__\<close> or lacks \<open>__map__\<close>,
  the script prints one line naming the missing section (\<open>__gfx__\<close> when that one is
  missing) on standard output, leaves standard error and every file as they were,
  and ends with exit status 0.
\<close>

theorem missing_section_reported_on_stdout:
  assumes "files w p8_file = Some content"
      and "find_str content ''__gfx__'' = - 1 \<or> find_str content ''__map__'' = - 1"
  shows "main w = (w\<lparr>stdout := stdout w @
                       [if find_str content ''__gfx__'' = - 1
                        then ''Error: __gfx__ section not found''
                        else ''Error: __map__ section not found'']\<rparr>, 0)
         \<and> files (fst (main w)) = files w
         \<and> stderr (fst (main w)) = stderr w
         \<and> snd (main w) = 0"
proof -
  from convert_missing[OF assms, of output_file]
  have "main w = (print (if find_str content ''__gfx__'' = - 1
                       then ''Error: __gfx__ section not found''
                       else ''Error: __map__ section not found'') w, 0)"
    by (simp add: main_def)
  then show ?thesis by (simp add: print_def)
qed

theorem missing_section_reported_on_stdout_witness:
  "files (world_of ''__gfx__'') p8_file = Some ''__gfx__''
   \<and> find_str ''__gfx__'' ''__map__'' = - 1
   \<and> main (world_of ''__gfx__'') =
       ((world_of ''__gfx__'')\<lparr>stdout := [''Error: __map__ section not found'']\<rparr>, 0)"
proof -
  have f: "files (world_of ''__gfx__'') p8_file = Some ''__gfx__''"
    by (simp add: world_of_def)
  have g: "find_str ''__gfx__'' ''__gfx__'' \<noteq> - 1" by code_simp
  have m: "find_str ''__gfx__'' ''__map__'' = - 1" by code_simp
  from missing_section_reported_on_stdout[OF f disjI2[OF m]] f g m show ?thesis
    by (simp add: world_of_def)
qed

text \<open>
  C2 as stated asks for a report on standard error and a nonzero exit status.  On a
  document that holds \<open>__map__\<close> only, the report goes to standard output, standard
  error stays empty and the exit status is 0.
\<close>

theorem missing_section_not_on_stderr:
  "find_str ''__map__'' ''__gfx__'' = - 1
   \<and> stdout (fst (main (world_of ''__map__''))) = [''Error: __gfx__ section not found'']
   \<and> stderr (fst (main (world_of ''__map__''))) = []
   \<and> snd (main (world_of ''__map__'')) = 0"
  by (simp add: main_def convert_p8_to_header_def world_of_def print_def find_str_def startswith_def)

text \<open>
  C3.  With \<open>__gfx__\<close> first found at offset \<open>g\<close> and \<open>__map__\<close> at \<open>m\<close>, both slices start
  at their marker, whose line the filter drops.  The GFX slice ends where
  \<open>__label__\<close> is first found if that is before \<open>m\<close>, and at \<open>m\<close> otherwise (no
  \<open>__label__\<close>, or one that is not before \<open>__map__\<close>).  The MAP slice ends where
  \<open>__sfx__\<close> is first found, and at the end of the document when there is none.
\<close>

theorem section_boundaries:
  assumes g: "find_str content ''__gfx__'' = int g"
      and m: "find_str content ''__map__'' = int m"
  shows "startswith (drop g content) ''__gfx__'' \<and> startswith (drop m content) ''__map__''
       \<and> (\<forall>l. find_str content ''__label__'' = int l \<and> l < m \<longrightarrow>
              gfx_section content = section_lines (take (l - g) (drop g content)))
       \<and> (find_str content ''__label__'' = - 1 \<or> int m \<le> find_str content ''__label__'' \<longrightarrow>
              gfx_section content = section_lines (take (m - g) (drop g content)))
       \<and> (\<forall>s. find_str content ''__sfx__'' = int s \<longrightarrow>
              map_section content = section_lines (take (s - m) (drop m content)))
       \<and> (find_str content ''__sfx__'' = - 1 \<longrightarrow>
              map_section content = section_lines (drop m content))"
proof (intro conjI allI impI)
  from g show "startswith (drop g content) ''__gfx__''"
    using find_str_first_iff[of "''__gfx__''" content g] startswith_occurs by simp
  from m show "startswith (drop m content) ''__map__''"
    using find_str_first_iff[of "''__map__''" content m] startswith_occurs by simp
next
  fix l assume "find_str content ''__label__'' = int l \<and> l < m"
  then have "gfx_end content = int l" by (simp add: gfx_end_def m)
  then show "gfx_section content = section_lines (take (l - g) (drop g content))"
    by (simp add: gfx_section_def g py_slice_nonneg)
next
  assume "find_str content ''__label__'' = - 1 \<or> int m \<le> find_str content ''__label__''"
  then have "gfx_end content = int m" by (auto simp: gfx_end_def m)
  then show "gfx_section content = section_lines (take (m - g) (drop g content))"
    by (simp add: gfx_section_def g py_slice_nonneg)
next
  fix s assume "find_str content ''__sfx__'' = int s"
  then have "map_end content = int s" by (simp add: map_end_def)
  then show "map_section content = section_lines (take (s - m) (drop m content))"
    by (simp add: map_section_def m py_slice_nonneg)
next
  assume "find_str content ''__sfx__'' = - 1"
  then have "map_end content = int (length content)" by (simp add: map_end_def)
  then show "map_section content = section_lines (drop m content)"
    by (simp add: map_section_def m py_slice_nonneg)
qed

theorem section_boundaries_witness:
  "find_str doc_full ''__gfx__'' = int 0
   \<and> find_str doc_full ''__map__'' = int 24
   \<and> find_str doc_full ''__label__'' = int 11
   \<and> find_str doc_full ''__sfx__'' = int 35
   \<and> gfx_section doc_full = section_lines (take (11 - 0) (drop 0 doc_full))
   \<and> map_section doc_full = section_lines (take (35 - 24) (drop 24 doc_full))
   \<and> gfx_section doc_full = [''01'']
   \<and> map_section doc_full = [''ff'']"
proof -
  have g: "find_str doc_full ''__gfx__'' = int 0" by code_simp
  have m: "find_str doc_full ''__map__'' = int 24" by code_simp
  have l: "find_str doc_full ''__label__'' = int 11" by code_simp
  have s: "find_str doc_full ''__sfx__'' = int 35" by code_simp
  have gv: "gfx_section doc_full = [''01'']" by code_simp
  have mv: "map_section doc_full = [''ff'']" by code_simp
  note t = section_boundaries[OF g m]
  from t have "\<forall>l. find_str doc_full ''__label__'' = int l \<and> l < 24 \<longrightarrow>
              gfx_section doc_full = section_lines (take (l - 0) (drop 0 doc_full))"
    by (elim conjE)
  then have "find_str doc_full ''__label__'' = int 11 \<and> (11::nat) < 24 \<longrightarrow>
              gfx_section doc_full = section_lines (take (11 - 0) (drop 0 doc_full))"
    by (rule spec)
  with l have a: "gfx_section doc_full = section_lines (take (11 - 0) (drop 0 doc_full))"
    by simp
  from t have "\<forall>s. find_str doc_full ''__sfx__'' = int s \<longrightarrow>
              map_section doc_full = section_lines (take (s - 24) (drop 24 doc_full))"
    by (elim conjE)
  then have "find_str doc_full ''__sfx__'' = int 35 \<longrightarrow>
              map_section doc_full = section_lines (take (35 - 24) (drop 24 doc_full))"
    by (rule spec)
  with s have b: "map_section doc_full = section_lines (take (35 - 24) (drop 24 doc_full))"
    by simp
  from g m l s a b gv mv show ?thesis by (intro conjI)
qed

text \<open>
  C4 on the document \<open>doc_signed\<close>, whose map line is \<open>-1\<close>.  The token is not two
  hexadecimal digits, and \<open>int\<close> accepts it: the byte collected is \<open>-1\<close>, not 0.  A
  sign or a space next to one digit is accepted in the same way.
\<close>

theorem signed_token_is_not_zero:
  "map_section doc_signed = [''-1'']
   \<and> byte_val ''-1'' = - 1
   \<and> collect_bytes (map_section doc_signed) = [- 1]
   \<and> byte_val ''+f'' = 15
   \<and> byte_val '' f'' = 15"
  by code_simp



text \<open>
  C6.  The line filter splits the raw slice at line feeds (joining the pieces with
  line feeds gives the slice back), drops the first piece, which is the marker's
  line, keeps, in their order, the lines whose \<open>strip()\<close> is not empty and that do not
  start with two underscores (the line as it stands, before stripping), and returns
  each kept line stripped: no returned line is empty or starts or ends with
  whitespace.
\<close>

theorem line_filter_keeps_trimmed_lines:
  "section_lines raw =
     map strip (filter (\<lambda>line. strip line \<noteq> [] \<and> \<not> startswith line ''__'')
                       (tl (split_nl raw)))
   \<and> join_str nl (split_nl raw) = raw
   \<and> split_nl raw = hd (split_nl raw) # tl (split_nl raw)
   \<and> (\<forall>l \<in> set (section_lines raw). l \<noteq> [] \<and> \<not> isspace (hd l) \<and> \<not> isspace (last l))"
proof (intro conjI ballI)
  show "section_lines raw =
     map strip (filter (\<lambda>line. strip line \<noteq> [] \<and> \<not> startswith line ''__'')
                       (tl (split_nl raw)))"
    by (rule section_lines_eq)
  show "join_str nl (split_nl raw) = raw" by (rule join_split_nl)
  show "split_nl raw = hd (split_nl raw) # tl (split_nl raw)"
    using split_nl_nonempty[of raw] by simp
next
  fix l assume "l \<in> set (section_lines raw)"
  then obtain line where l: "l = strip line" "strip line \<noteq> []"
    by (auto simp: section_lines_eq)
  from l show "l \<noteq> []" by simp
  from l show "\<not> isspace (hd l)" by (simp add: strip_hd)
  from l show "\<not> isspace (last l)" by (simp add: strip_last)
qed

theorem line_filter_keeps_trimmed_lines_witness:
  "section_lines (''__gfx__'' @ nl @ '' 01 '' @ nl @ nl @ ''__x'' @ nl @ ''  __y'' @ nl
                  @ ''  '' @ nl @ ''23'')
     = [''01'', ''__y'', ''23'']
   \<and> ''01'' \<in> set (section_lines
         (''__gfx__'' @ nl @ '' 01 '' @ nl @ nl @ ''__x'' @ nl @ ''  __y'' @ nl
          @ ''  '' @ nl @ ''23''))
   \<and> \<not> isspace (hd ''01'') \<and> \<not> isspace (last ''01'')"
proof -
  let ?raw = "''__gfx__'' @ nl @ '' 01 '' @ nl @ nl @ ''__x'' @ nl @ ''  __y'' @ nl
              @ ''  '' @ nl @ ''23''"
  have v: "section_lines ?raw = [''01'', ''__y'', ''23'']" by code_simp
  then have m: "''01'' \<in> set (section_lines ?raw)" by simp
  from line_filter_keeps_trimmed_lines[of ?raw]
  have b: "\<forall>l \<in> set (section_lines ?raw). l \<noteq> [] \<and> \<not> isspace (hd l) \<and> \<not> isspace (last l)"
    by (elim conjE)
  from bspec[OF b m] have "\<not> isspace (hd ''01'') \<and> \<not> isspace (last ''01'')"
    by (elim conjE) (intro conjI)
  with v m show ?thesis by (intro conjI) (elim conjE, assumption)+
qed

text \<open>
  C7.  A line of the map section with an odd number of characters loses its last
  character: the bytes the inner loop appends for it are the bytes of the complete
  two-character pairs, which together make up the line without its last character,
  so that character contributes no byte.  (A line of the section is already
  stripped, so the second \<open>strip()\<close> of the loop leaves it as it is.)
\<close>

theorem odd_line_drops_last_char:
  assumes "line \<in> set (map_section content)" and "odd (length line)"
  shows "scan_row (strip line) acc = acc @ map byte_val (pairs (butlast line))
         \<and> concat (pairs (butlast line)) = butlast line
         \<and> length (scan_row (strip line) acc) = length acc + (length line - 1) div 2"
proof -
  from assms(1) have s: "strip line = line"
    unfolding map_section_def using section_lines_trimmed by blast
  from assms(2) have e: "even (length (butlast line))" by simp
  from assms(2) have p: "pairs line = pairs (butlast line)" by (rule pairs_butlast)
  show ?thesis
    using s p concat_pairs[OF e] by (simp add: scan_row_eq length_pairs)
qed

theorem odd_line_drops_last_char_witness:
  "''abc'' \<in> set (map_section (''__gfx__'' @ nl @ ''__map__'' @ nl @ ''abc''))
   \<and> odd (length ''abc'')
   \<and> scan_row (strip ''abc'') [] = map byte_val (pairs ''ab'')
   \<and> scan_row (strip ''abc'') [] = [171]"
proof -
  have m: "''abc'' \<in> set (map_section (''__gfx__'' @ nl @ ''__map__'' @ nl @ ''abc''))"
    by code_simp
  have o: "odd (length ''abc'')" by simp
  have v: "map byte_val (pairs ''ab'') = [171]" by code_simp
  from odd_line_drops_last_char[OF m o, of "[]"] m o v show ?thesis by simp
qed

text \<open>
  C8 on the same document: the first line of the map array starts with \<open>0x-1\<close>,
  which is not a value of two hexadecimal digits.
\<close>

theorem signed_token_breaks_map_format:
  "map_text (map_bytes (map_section doc_signed)) =
     (''    0x-1,0x00,0x00,0x00,0x00,0x00,0x00,0x00,0x00,0x00,0x00,0x00,0x00,0x00,0x00,0x00,'' @ nl)
     @ concat (map (\<lambda>i. write_chunk i (map_bytes (map_section doc_signed)))
                   (range_step 16 4096 16))"
proof -
  have s: "map_section doc_signed = [''-1'']" by code_simp
  have c: "collect_bytes [''-1''] = [- 1]" by code_simp
  have t: "take 16 (drop 0 (map_bytes [''-1''])) = - 1 # replicate 15 0"
    by (simp add: map_bytes_eq c)
  have w: "''    '' @ join_str '','' (map (\<lambda>b. ''0x'' @ format_02x b) (- 1 # replicate 15 0))
           @ '','' @ nl
         = ''    0x-1,0x00,0x00,0x00,0x00,0x00,0x00,0x00,0x00,0x00,0x00,0x00,0x00,0x00,0x00,0x00,'' @ nl"
    by code_simp
  have "write_chunk 0 (map_bytes [''-1''])
        = ''    0x-1,0x00,0x00,0x00,0x00,0x00,0x00,0x00,0x00,0x00,0x00,0x00,0x00,0x00,0x00,0x00,'' @ nl"
    unfolding write_chunk_def t using w by simp
  then show ?thesis
    unfolding s by (subst map_text_first) simp
qed

text \<open>
  C9.  Let a first run return, and let a second run start from any world in which
  the input file is as it was and the output file is as the first run left it.  Then
  the second run returns too, and the output file is the same as after the first.
\<close>

theorem conversion_repeatable:
  assumes "convert_p8_to_header p8 out w = Inr w1"
      and "files v p8 = files w p8"
      and "files v out = files w1 out"
  shows "\<exists>w2. convert_p8_to_header p8 out v = Inr w2 \<and> files w2 out = files w1 out"
proof (cases "files w p8")
  case None
  with assms(1) show ?thesis by (simp add: convert_absent_file)
next
  case (Some content)
  show ?thesis
  proof (cases "find_str content ''__gfx__'' = - 1 \<or> find_str content ''__map__'' = - 1")
    case True
    from Some assms(2) have v: "files v p8 = Some content" by simp
    from convert_missing[OF Some True, of out] assms(1) have "files w1 = files w"
      by (auto simp: print_def)
    with convert_missing[OF v True, of out] assms(3) show ?thesis
      by (simp add: print_def)
  next
    case False
    then have g: "find_str content ''__gfx__'' \<noteq> - 1" and m: "find_str content ''__map__'' \<noteq> - 1"
      by simp_all
    from Some assms(2) have v: "files v p8 = Some content" by simp
    from convert_present[OF Some g m, of out] assms(1)
    have "files w1 out = Some (header_text (gfx_section content) (map_section content))"
      by auto
    with convert_present[OF v g m, of out] show ?thesis by auto
  qed
qed

theorem conversion_repeatable_witness:
  "\<exists>w1. convert_p8_to_header p8_file output_file (world_of doc_small) = Inr w1
      \<and> files w1 p8_file = files (world_of doc_small) p8_file
      \<and> (\<exists>w2. convert_p8_to_header p8_file output_file w1 = Inr w2
               \<and> files w2 output_file = files w1 output_file)"
proof -
  have f: "files (world_of doc_small) p8_file = Some doc_small" by (simp add: world_of_def)
  have g: "find_str doc_small ''__gfx__'' \<noteq> - 1" by code_simp
  have m: "find_str doc_small ''__map__'' \<noteq> - 1" by code_simp
  have ne: "output_file \<noteq> p8_file" by (simp add: output_file_def p8_file_def)
  from convert_present[OF f g m, of output_file] obtain w1 where
    w1: "convert_p8_to_header p8_file output_file (world_of doc_small) = Inr w1"
        "files w1 = (files (world_of doc_small))(output_file \<mapsto>
                       header_text (gfx_section doc_small) (map_section doc_small))"
    by blast
  from w1(2) ne have same: "files w1 p8_file = files (world_of doc_small) p8_file" by simp
  from conversion_repeatable[OF w1(1) same refl] w1(1) same show ?thesis by blast
qed

text \<open>
  C10.  \<open>find\<close> gives the first offset at which the marker occurs in the document,
  wherever that is, and \<open>-1\<close> when it occurs nowhere: a marker with any text before
  it and after it is found, at or before its own offset.  When \<open>__sfx__\<close> is first
  found before \<open>__map__\<close>, the map slice is empty, so the map section has no line and
  the 4096 values written are all 0.
\<close>

theorem markers_match_anywhere:
  assumes "mk \<noteq> []"
  shows "(find_str doc mk = - 1 \<longleftrightarrow> (\<forall>k. \<not> occurs_at doc mk k))
       \<and> (\<forall>k. find_str doc mk = int k \<longleftrightarrow>
               occurs_at doc mk k \<and> (\<forall>j<k. \<not> occurs_at doc mk j))
       \<and> 0 \<le> find_str (pre @ mk @ post) mk
       \<and> find_str (pre @ mk @ post) mk \<le> int (length pre)
       \<and> (\<forall>m s. find_str doc ''__map__'' = int m \<and> find_str doc ''__sfx__'' = int s \<and> s < m
              \<longrightarrow> map_section doc = []
                \<and> map_bytes (map_section doc) = replicate 4096 0
                \<and> map_entries (map_bytes (map_section doc)) = replicate 4096 0)"
proof (intro conjI allI impI)
  show "find_str doc mk = - 1 \<longleftrightarrow> (\<forall>k. \<not> occurs_at doc mk k)"
    by (rule find_str_absent_iff[OF assms])
next
  fix k
  show "find_str doc mk = int k \<longleftrightarrow> occurs_at doc mk k \<and> (\<forall>j<k. \<not> occurs_at doc mk j)"
    by (rule find_str_first_iff[OF assms])
next
  let ?d = "pre @ mk @ post"
  have occ: "occurs_at ?d mk (length pre)" by (rule occurs_at_middle)
  then have ne: "find_str ?d mk \<noteq> - 1"
    using find_str_absent_iff[OF assms, of ?d] by blast
  with find_str_range[of ?d mk] show nonneg: "0 \<le> find_str ?d mk" by simp
  then obtain k where k: "find_str ?d mk = int k"
    using nonneg_int_cases by blast
  with find_str_first_iff[OF assms, of ?d k] have "\<forall>j<k. \<not> occurs_at ?d mk j" by simp
  with occ have "k \<le> length pre" by (meson not_le_imp_less)
  with k show "find_str ?d mk \<le> int (length pre)" by simp
next
  fix m s
  assume h: "find_str doc ''__map__'' = int m \<and> find_str doc ''__sfx__'' = int s \<and> s < m"
  then have "map_end doc = int s" by (simp add: map_end_def)
  with h have "map_section doc = section_lines (take (s - m) (drop m doc))"
    by (simp add: map_section_def py_slice_nonneg)
  with h show e: "map_section doc = []" by (simp add: section_lines_Nil)
  then show b: "map_bytes (map_section doc) = replicate 4096 0" by (simp add: map_bytes_Nil)
  then show "map_entries (map_bytes (map_section doc)) = replicate 4096 0"
    by (simp add: map_entries_eq)
qed

theorem markers_match_anywhere_witness:
  "''__sfx__'' \<noteq> []
   \<and> find_str doc_sfx_first ''__map__'' = int 19
   \<and> find_str doc_sfx_first ''__sfx__'' = int 0
   \<and> (0::nat) < 19
   \<and> map_section doc_sfx_first = []
   \<and> map_entries (map_bytes (map_section doc_sfx_first)) = replicate 4096 0"
proof -
  have n: "''__sfx__'' \<noteq> []" by simp
  have m: "find_str doc_sfx_first ''__map__'' = int 19" by code_simp
  have s: "find_str doc_sfx_first ''__sfx__'' = int 0" by code_simp
  have lt: "(0::nat) < 19" by simp
  note t = markers_match_anywhere[OF n, of doc_sfx_first "[]" "[]"]
  from t have "\<forall>m s. find_str doc_sfx_first ''__map__'' = int m
                   \<and> find_str doc_sfx_first ''__sfx__'' = int s \<and> s < m
              \<longrightarrow> map_section doc_sfx_first = []
                \<and> map_bytes (map_section doc_sfx_first) = replicate 4096 0
                \<and> map_entries (map_bytes (map_section doc_sfx_first)) = replicate 4096 0"
    by (elim conjE)
  then have "find_str doc_sfx_first ''__map__'' = int 19
                   \<and> find_str doc_sfx_first ''__sfx__'' = int 0 \<and> (0::nat) < 19
              \<longrightarrow> map_section doc_sfx_first = []
                \<and> map_bytes (map_section doc_sfx_first) = replicate 4096 0
                \<and> map_entries (map_bytes (map_section doc_sfx_first)) = replicate 4096 0"
    by (elim allE)
  with m s lt have "map_section doc_sfx_first = []
                \<and> map_entries (map_bytes (map_section doc_sfx_first)) = replicate 4096 0"
    by blast
  with n m s lt show ?thesis by blast
qed

end
